theory Spec2Isabelle
  imports Main "HOL-Library.Char_ord" "HOL-Library.List_Lexorder"
begin

section \<open>JSON values as Python sees them\<close>

text \<open>
  \<^verbatim>\<open>json.loads\<close> yields \<^verbatim>\<open>None\<close>, \<^verbatim>\<open>bool\<close>, \<^verbatim>\<open>int\<close>, \<^verbatim>\<open>str\<close>,
  \<^verbatim>\<open>dict\<close> and \<^verbatim>\<open>list\<close>. A dict keeps insertion order and has each key once, so it is
  an association list whose keys are distinct (\<open>wf_json\<close> below). Numbers are Python's
  unbounded integers; floating-point numbers are outside the model. Characters are the
  code points below 256.
\<close>

datatype json =
    JNull
  | JBool bool
  | JNum int
  | JStr string
  | JObj "(string \<times> json) list"
  | JArr "json list"

type_synonym pydict = "(string \<times> json) list"


text \<open>\<^verbatim>\<open>key in d\<close>, \<^verbatim>\<open>d[key]\<close> and \<^verbatim>\<open>d.get(key, default)\<close>.\<close>

definition dict_get :: "pydict \<Rightarrow> string \<Rightarrow> json option" where
  "dict_get d k = map_of d k"

definition dict_keys :: "pydict \<Rightarrow> string list" where
  "dict_keys d = map fst d"

text \<open>
  \<^verbatim>\<open>d[key] = value\<close>: an existing key keeps its position and takes the new value, a new
  key goes to the end.
\<close>

fun dict_set :: "pydict \<Rightarrow> string \<Rightarrow> json \<Rightarrow> pydict" where
  "dict_set [] k v = [(k, v)]"
| "dict_set ((k', v') # d) k v = (if k' = k then (k, v) # d else (k', v') # dict_set d k v)"

section \<open>JsonDiffer\<close>

text \<open>
  \<^verbatim>\<open>sorted(obj.items())\<close> orders the (key, value) tuples; the keys of a dict differ
  pairwise, so the tuples are ordered by key alone, by code points.
\<close>

function normalize_json :: "json \<Rightarrow> json" where
  "normalize_json (JObj kvs) =
     JObj (map (\<lambda>kv. (fst kv, normalize_json (snd kv))) (sort_key fst kvs))"
| "normalize_json (JArr xs) = JArr (map normalize_json xs)"
| "normalize_json JNull = JNull"
| "normalize_json (JBool b) = JBool b"
| "normalize_json (JNum n) = JNum n"
| "normalize_json (JStr s) = JStr s"
  by pat_completeness auto

lemma size_snd_less:
  "kv \<in> set kvs \<Longrightarrow> size (snd kv) \<le> size_list (size_prod (\<lambda>_. 0) size) kvs"
proof (induction kvs)
  case Nil
  then show ?case by simp
next
  case (Cons a kvs)
  then show ?case by (cases a; cases kv) auto
qed

termination normalize_json
proof (relation "measure size")
  show "wf (measure size)" by simp
next
  fix kvs :: pydict and kv
  assume "kv \<in> set (sort_key fst kvs)"
  then have "kv \<in> set kvs" by simp
  then show "(snd kv, JObj kvs) \<in> measure size"
    using size_snd_less [of kv kvs] by simp
next
  fix xs :: "json list" and x
  assume "x \<in> set xs"
  then show "(x, JArr xs) \<in> measure size"
    using size_list_estimation' [of x xs "size x" size] by (simp add: less_Suc_eq_le)
qed

text \<open>
  Python's \<^verbatim>\<open>==\<close> on these values. \<^verbatim>\<open>bool\<close> is a subclass of \<^verbatim>\<open>int\<close>:
  \<^verbatim>\<open>True == 1\<close> and \<^verbatim>\<open>False == 0\<close>. Two lists are equal when they have the same
  length and equal elements in order; two dicts when they have the same number of keys
  and every key of the first is in the second with an equal value, whatever the order.
\<close>

fun py_eq :: "json \<Rightarrow> json \<Rightarrow> bool" where
  "py_eq JNull b = (b = JNull)"
| "py_eq (JBool x) b =
     (case b of JBool y \<Rightarrow> x = y | JNum n \<Rightarrow> n = (if x then 1 else 0) | _ \<Rightarrow> False)"
| "py_eq (JNum m) b =
     (case b of JBool y \<Rightarrow> m = (if y then 1 else 0) | JNum n \<Rightarrow> m = n | _ \<Rightarrow> False)"
| "py_eq (JStr s) b = (b = JStr s)"
| "py_eq (JArr xs) b =
     (case b of JArr ys \<Rightarrow> length xs = length ys \<and> list_all2 py_eq xs ys | _ \<Rightarrow> False)"
| "py_eq (JObj d) b =
     (case b of
        JObj e \<Rightarrow> length d = length e \<and>
          list_all (\<lambda>kv. case dict_get e (fst kv) of None \<Rightarrow> False
                              | Some w \<Rightarrow> py_eq (snd kv) w) d
      | _ \<Rightarrow> False)"

definition json_objects_equal :: "json \<Rightarrow> json \<Rightarrow> bool" where
  "json_objects_equal obj1 obj2 = py_eq (normalize_json obj1) (normalize_json obj2)"

text \<open>
  \<^verbatim>\<open>generate_diff_report\<close> appends formatted lines to a list. Each constructor below is
  one of its f-string templates with the values it interpolates; \<^verbatim>\<open>json.dumps\<close> of the
  old and the new value is kept as the value itself.
\<close>

datatype diff_line =
    RemovedKey string
  | AddedKey string
  | Modified string
  | OldValue json
  | NewValue json
  | ArrayLengthChanged string nat nat
  | ArrayContentChanged string

definition is_container :: "json \<Rightarrow> bool" where
  "is_container v = (case v of JObj _ \<Rightarrow> True | JArr _ \<Rightarrow> True | _ \<Rightarrow> False)"

text \<open>\<^verbatim>\<open>f"{path}.{key}" if path else key\<close>\<close>

definition sub_path :: "string \<Rightarrow> string \<Rightarrow> string" where
  "sub_path path key = (if path \<noteq> [] then path @ ''.'' @ key else key)"

text \<open>
  The three loops run over the keys of a dict and read \<^verbatim>\<open>old_obj[key]\<close>; on an
  association list with distinct keys this is the loop over its (key, value) pairs.
\<close>

fun generate_diff_report :: "json \<Rightarrow> json \<Rightarrow> string \<Rightarrow> diff_line list" where
  "generate_diff_report (JObj old_obj) new path =
     (case new of
        JObj new_obj \<Rightarrow>
          map (\<lambda>kv. RemovedKey (sub_path path (fst kv)))
            (filter (\<lambda>kv. dict_get new_obj (fst kv) = None) old_obj) @
          map (\<lambda>kv. AddedKey (sub_path path (fst kv)))
            (filter (\<lambda>kv. dict_get old_obj (fst kv) = None) new_obj) @
          concat (map (\<lambda>kv.
            case dict_get new_obj (fst kv) of
              None \<Rightarrow> []
            | Some nv \<Rightarrow>
                if \<not> json_objects_equal (snd kv) nv then
                  if is_container (snd kv) \<and> is_container nv
                  then generate_diff_report (snd kv) nv (sub_path path (fst kv))
                  else [Modified (sub_path path (fst kv)), OldValue (snd kv), NewValue nv]
                else []) old_obj)
      | _ \<Rightarrow> [])"
| "generate_diff_report (JArr old_list) new path =
     (case new of
        JArr new_list \<Rightarrow>
          (if length old_list \<noteq> length new_list
           then [ArrayLengthChanged path (length old_list) (length new_list)] else []) @
          (if \<not> json_objects_equal (JArr old_list) (JArr new_list)
           then [ArrayContentChanged path] else [])
      | _ \<Rightarrow> [])"
| "generate_diff_report JNull new path = []"
| "generate_diff_report (JBool b) new path = []"
| "generate_diff_report (JNum n) new path = []"
| "generate_diff_report (JStr s) new path = []"

section \<open>JsonCommentStripper\<close>

definition backslash :: char where
  "backslash = CHR 0x5C"

definition dquote :: char where
  "dquote = CHR 0x22"

definition newline :: char where
  "newline = CHR 0x0A"

text \<open>\<^verbatim>\<open>text.split('\n')\<close> and \<^verbatim>\<open>'\n'.join(lines)\<close>.\<close>

fun split_sep :: "char \<Rightarrow> string \<Rightarrow> string list" where
  "split_sep c [] = [[]]"
| "split_sep c (x # xs) =
     (if x = c then [] # split_sep c xs
      else (case split_sep c xs of
              l # ls \<Rightarrow> (x # l) # ls
            | [] \<Rightarrow> [[x]]))"

fun join_sep :: "char \<Rightarrow> string list \<Rightarrow> string" where
  "join_sep c [] = []"
| "join_sep c [l] = l"
| "join_sep c (l # ls) = l @ c # join_sep c ls"

text \<open>
  The inner loop over one line, from position \<open>i\<close> on, with the two flags it carries.
  \<open>None\<close> is \<^verbatim>\<open>comment_pos = -1\<close>. \<^verbatim>\<open>line[i + 1]\<close> is the head of the rest.
\<close>

fun find_comment :: "bool \<Rightarrow> bool \<Rightarrow> nat \<Rightarrow> string \<Rightarrow> nat option" where
  "find_comment in_string escaped i [] = None"
| "find_comment in_string escaped i (c # cs) =
     (if escaped then find_comment in_string False (Suc i) cs
      else if c = backslash then find_comment in_string True (Suc i) cs
      else if c = dquote then find_comment (\<not> in_string) escaped (Suc i) cs
      else if \<not> in_string \<and> c = CHR ''/'' \<and> cs \<noteq> [] \<and> hd cs = CHR ''/'' then Some i
      else find_comment in_string escaped (Suc i) cs)"

text \<open>\<^verbatim>\<open>str.isspace\<close> on the code points below 256, and \<^verbatim>\<open>str.rstrip()\<close>.\<close>

definition py_isspace :: "char \<Rightarrow> bool" where
  "py_isspace c = ((of_char c :: nat) \<in> {9, 10, 11, 12, 13, 28, 29, 30, 31, 32, 133, 160})"

definition rstrip :: "string \<Rightarrow> string" where
  "rstrip s = rev (dropWhile py_isspace (rev s))"

definition strip_line :: "string \<Rightarrow> string" where
  "strip_line line =
     (case find_comment False False 0 line of
        Some comment_pos \<Rightarrow> rstrip (take comment_pos line)
      | None \<Rightarrow> line)"

definition strip_comments :: "string \<Rightarrow> string" where
  "strip_comments text = join_sep newline (map strip_line (split_sep newline text))"

text \<open>
  The scanner as the specification words it: a backslash sets the escaped flag, which
  hides the next character; an unescaped double quote toggles the in-string flag. The
  state is (in-string, escaped).
\<close>

definition scan_step :: "bool \<times> bool \<Rightarrow> char \<Rightarrow> bool \<times> bool" where
  "scan_step st c =
     (if snd st then (fst st, False)
      else if c = backslash then (fst st, True)
      else if c = dquote then (\<not> fst st, False)
      else (fst st, False))"

definition scan_state :: "string \<Rightarrow> bool \<times> bool" where
  "scan_state prefix = foldl scan_step (False, False) prefix"

text \<open>
  Position \<open>i\<close> of a line starts a comment when the line reads \<^verbatim>\<open>//\<close> there and the
  text before it leaves the scanner outside a string and not escaped.
\<close>

definition comment_start :: "string \<Rightarrow> nat \<Rightarrow> bool" where
  "comment_start line i =
     (Suc i < length line \<and> line ! i = CHR ''/'' \<and> line ! Suc i = CHR ''/'' \<and>
      scan_state (take i line) = (False, False))"

definition first_comment :: "string \<Rightarrow> nat option" where
  "first_comment line = find (comment_start line) [0..<length line]"

section \<open>DeviceConfigResolver\<close>

text \<open>
  The exceptions the program can raise. \<open>ImportPathError\<close> and \<open>MergeError\<close> are
  both \<^verbatim>\<open>ValueError\<close>, with the messages "Import path must contain '#'" and "Cannot
  merge non-dict template value with other keys". \<open>RecursionError\<close> is what Python
  raises when the call stack reaches its limit.
\<close>

datatype error =
    ImportPathError
  | MergeError
  | KeyError
  | FileNotFoundError
  | JSONDecodeError
  | TypeError
  | AttributeError
  | RecursionError

text \<open>
  What the program takes from its surroundings: a \<^verbatim>\<open>Path\<close> is identified with its
  string, \<^verbatim>\<open>Path / str\<close> and \<^verbatim>\<open>Path.parent\<close> are \<^verbatim>\<open>pathlib\<close>'s, the files are a
  map from paths to their text, and \<^verbatim>\<open>json.loads\<close> and
  \<^verbatim>\<open>json.dumps(_, indent=2)\<close> are the standard library's.
\<close>

type_synonym path = string

record env =
  base_dir :: path
  path_join :: "path \<Rightarrow> string \<Rightarrow> path"
  path_parent :: "path \<Rightarrow> path"
  read_text :: "path \<Rightarrow> string option"
  json_loads :: "string \<Rightarrow> json option"
  json_dumps :: "json \<Rightarrow> string"

type_synonym cache = "path \<Rightarrow> json option"

definition load_json_file :: "env \<Rightarrow> path \<Rightarrow> error + json" where
  "load_json_file E file_path =
     (case read_text E file_path of
        None \<Rightarrow> Inl FileNotFoundError
      | Some content \<Rightarrow>
          (case json_loads E (strip_comments content) of
             None \<Rightarrow> Inl JSONDecodeError
           | Some v \<Rightarrow> Inr v))"

text \<open>
  \<^verbatim>\<open>resolve_import_path\<close>. The value under \<^verbatim>\<open>$import\<close> is whatever the file holds;
  \<^verbatim>\<open>'#' not in import_path\<close> is defined on a string, a list and a dict, and
  \<^verbatim>\<open>split\<close> on a string only. \<^verbatim>\<open>import_path.split('#', 1)\<close> cuts at the first
  \<^verbatim>\<open>#\<close>.
\<close>

definition resolve_import_path :: "env \<Rightarrow> json \<Rightarrow> path \<Rightarrow> error + (path \<times> string)" where
  "resolve_import_path E import_path current_file =
     (case import_path of
        JStr s \<Rightarrow>
          if CHR ''#'' \<notin> set s then Inl ImportPathError
          else
            let path_part = takeWhile (\<lambda>c. c \<noteq> CHR ''#'') s;
                key_part = tl (dropWhile (\<lambda>c. c \<noteq> CHR ''#'') s);
                template_path =
                  (if path_part = [] then current_file
                   else if take 2 path_part = ''~/'' then path_join E (base_dir E) (drop 2 path_part)
                   else path_join E (path_parent E current_file) path_part)
            in Inr (template_path, key_part)
      | JArr xs \<Rightarrow> if JStr ''#'' \<notin> set xs then Inl ImportPathError else Inl AttributeError
      | JObj d \<Rightarrow> if dict_get d ''#'' = None then Inl ImportPathError else Inl AttributeError
      | _ \<Rightarrow> Inl TypeError)"

definition is_substring :: "string \<Rightarrow> string \<Rightarrow> bool" where
  "is_substring k s = list_ex (\<lambda>i. take (length k) (drop i s) = k) [0..<Suc (length s)]"

text \<open>
  \<^verbatim>\<open>key not in template_data\<close> followed by \<^verbatim>\<open>template_data[key]\<close>, on whatever the
  template file parsed to.
\<close>

definition template_lookup :: "json \<Rightarrow> string \<Rightarrow> error + json" where
  "template_lookup template_data key =
     (case template_data of
        JObj d \<Rightarrow> (case dict_get d key of None \<Rightarrow> Inl KeyError | Some v \<Rightarrow> Inr v)
      | JArr xs \<Rightarrow> if JStr key \<notin> set xs then Inl KeyError else Inl TypeError
      | JStr s \<Rightarrow> if \<not> is_substring key s then Inl KeyError else Inl TypeError
      | _ \<Rightarrow> Inl TypeError)"

text \<open>
  \<^verbatim>\<open>get_template_value\<close> reads and updates \<^verbatim>\<open>self.template_cache\<close>: the cache goes in
  and comes out.
\<close>

definition get_template_value :: "env \<Rightarrow> path \<Rightarrow> string \<Rightarrow> cache \<Rightarrow> error + (json \<times> cache)" where
  "get_template_value E template_file key c =
     (case (case c template_file of
              Some template_data \<Rightarrow> Inr (template_data, c)
            | None \<Rightarrow>
                (case load_json_file E template_file of
                   Inl e \<Rightarrow> Inl e
                 | Inr template_data \<Rightarrow> Inr (template_data, c(template_file \<mapsto> template_data)))) of
        Inl e \<Rightarrow> Inl e
      | Inr (template_data, c') \<Rightarrow>
          (case template_lookup template_data key of
             Inl e \<Rightarrow> Inl e
           | Inr v \<Rightarrow> Inr (v, c')))"

text \<open>
  The three loops of \<^verbatim>\<open>resolve_imports\<close>, over a function \<open>f\<close> that resolves one value
  and threads the cache: the list comprehension, the dict comprehension, and the loop
  that writes the importing node's own keys over the copy of the template.
\<close>

fun resolve_list ::
  "(json \<Rightarrow> cache \<Rightarrow> error + (json \<times> cache)) \<Rightarrow> json list \<Rightarrow> cache \<Rightarrow> error + (json list \<times> cache)" where
  "resolve_list f [] c = Inr ([], c)"
| "resolve_list f (x # xs) c =
     (case f x c of
        Inl e \<Rightarrow> Inl e
      | Inr (y, c1) \<Rightarrow>
          (case resolve_list f xs c1 of
             Inl e \<Rightarrow> Inl e
           | Inr (ys, c2) \<Rightarrow> Inr (y # ys, c2)))"

fun resolve_values ::
  "(json \<Rightarrow> cache \<Rightarrow> error + (json \<times> cache)) \<Rightarrow> pydict \<Rightarrow> cache \<Rightarrow> error + (pydict \<times> cache)" where
  "resolve_values f [] c = Inr ([], c)"
| "resolve_values f ((k, v) # kvs) c =
     (case f v c of
        Inl e \<Rightarrow> Inl e
      | Inr (v', c1) \<Rightarrow>
          (case resolve_values f kvs c1 of
             Inl e \<Rightarrow> Inl e
           | Inr (kvs', c2) \<Rightarrow> Inr ((k, v') # kvs', c2)))"

fun merge_overrides ::
  "(json \<Rightarrow> cache \<Rightarrow> error + (json \<times> cache)) \<Rightarrow> pydict \<Rightarrow> pydict \<Rightarrow> cache \<Rightarrow> error + (pydict \<times> cache)" where
  "merge_overrides f [] result c = Inr (result, c)"
| "merge_overrides f ((k, v) # kvs) result c =
     (if k \<noteq> ''$import'' then
        (case f v c of
           Inl e \<Rightarrow> Inl e
         | Inr (v', c1) \<Rightarrow> merge_overrides f kvs (dict_set result k v') c1)
      else merge_overrides f kvs result c)"

text \<open>
  \<^verbatim>\<open>resolve_imports\<close>. The first argument is the number of nested calls the stack
  still allows: every call of the source is one level deeper, and Python raises
  \<^verbatim>\<open>RecursionError\<close> at the limit.
\<close>

primrec resolve_imports ::
  "env \<Rightarrow> nat \<Rightarrow> json \<Rightarrow> path \<Rightarrow> cache \<Rightarrow> error + (json \<times> cache)" where
  "resolve_imports E 0 data current_file c = Inl RecursionError"
| "resolve_imports E (Suc depth) data current_file c =
     (case data of
        JObj items \<Rightarrow>
          (case dict_get items ''$import'' of
             Some import_path \<Rightarrow>
               (case resolve_import_path E import_path current_file of
                  Inl e \<Rightarrow> Inl e
                | Inr (template_file, template_key) \<Rightarrow>
                    (case get_template_value E template_file template_key c of
                       Inl e \<Rightarrow> Inl e
                     | Inr (template_value, c1) \<Rightarrow>
                         (case resolve_imports E depth template_value template_file c1 of
                            Inl e \<Rightarrow> Inl e
                          | Inr (resolved_template, c2) \<Rightarrow>
                              (case resolved_template of
                                 JObj template_items \<Rightarrow>
                                   (case merge_overrides
                                           (\<lambda>v. resolve_imports E depth v current_file)
                                           items template_items c2 of
                                      Inl e \<Rightarrow> Inl e
                                    | Inr (result, c3) \<Rightarrow> Inr (JObj result, c3))
                               | _ \<Rightarrow>
                                   if length items = 1 then Inr (resolved_template, c2)
                                   else Inl MergeError))))
           | None \<Rightarrow>
               (case resolve_values (\<lambda>v. resolve_imports E depth v current_file) items c of
                  Inl e \<Rightarrow> Inl e
                | Inr (items', c') \<Rightarrow> Inr (JObj items', c')))
      | JArr xs \<Rightarrow>
          (case resolve_list (\<lambda>item. resolve_imports E depth item current_file) xs c of
             Inl e \<Rightarrow> Inl e
           | Inr (xs', c') \<Rightarrow> Inr (JArr xs', c'))
      | _ \<Rightarrow> Inr (data, c))"

text \<open>
  \<^verbatim>\<open>resolve_device_config\<close>: the device file is loaded directly, and the resolver
  starts with the empty cache of a fresh \<^verbatim>\<open>DeviceConfigResolver\<close>.
\<close>

definition resolve_device_config :: "env \<Rightarrow> nat \<Rightarrow> string \<Rightarrow> string \<Rightarrow> error + json" where
  "resolve_device_config E depth manufacturer_id device_filename =
     (let device_file = path_join E (path_join E (base_dir E) manufacturer_id) device_filename
      in case read_text E device_file of
           None \<Rightarrow> Inl FileNotFoundError
         | Some _ \<Rightarrow>
             (case load_json_file E device_file of
                Inl e \<Rightarrow> Inl e
              | Inr device_config \<Rightarrow>
                  (case resolve_imports E depth device_config device_file Map.empty of
                     Inl e \<Rightarrow> Inl e
                   | Inr (resolved_config, _) \<Rightarrow> Inr resolved_config)))"

section \<open>process_device\<close>

text \<open>
  The dynamic operations \<^verbatim>\<open>process_device\<close> applies to values read from files:
  \<^verbatim>\<open>x.get(key, default)\<close>, \<^verbatim>\<open>x.copy()\<close>, \<^verbatim>\<open>x[key] = value\<close> with a string key, and
  \<^verbatim>\<open>x += 1\<close>. Each raises on the types that do not support it.
\<close>

definition py_get :: "json \<Rightarrow> string \<Rightarrow> json \<Rightarrow> error + json" where
  "py_get x key dflt =
     (case x of
        JObj d \<Rightarrow> Inr (case dict_get d key of Some v \<Rightarrow> v | None \<Rightarrow> dflt)
      | _ \<Rightarrow> Inl AttributeError)"

definition py_copy :: "json \<Rightarrow> error + json" where
  "py_copy x =
     (case x of JObj d \<Rightarrow> Inr (JObj d) | JArr xs \<Rightarrow> Inr (JArr xs) | _ \<Rightarrow> Inl AttributeError)"

definition py_setitem :: "json \<Rightarrow> string \<Rightarrow> json \<Rightarrow> error + json" where
  "py_setitem x key v =
     (case x of JObj d \<Rightarrow> Inr (JObj (dict_set d key v)) | _ \<Rightarrow> Inl TypeError)"

definition py_add_one :: "json \<Rightarrow> error + json" where
  "py_add_one x =
     (case x of
        JNum n \<Rightarrow> Inr (JNum (n + 1))
      | JBool b \<Rightarrow> Inr (JNum ((if b then 1 else 0) + 1))
      | _ \<Rightarrow> Inl TypeError)"

text \<open>\<^verbatim>\<open>input().strip().lower() not in ('y', 'yes')\<close>, on the code points below 256.\<close>

definition py_strip :: "string \<Rightarrow> string" where
  "py_strip s = dropWhile py_isspace (rstrip s)"

definition py_lower_char :: "char \<Rightarrow> char" where
  "py_lower_char c =
     (let n = (of_char c :: nat)
      in if (65 \<le> n \<and> n \<le> 90) \<or> (192 \<le> n \<and> n \<le> 222 \<and> n \<noteq> 215)
         then char_of (n + 32) else c)"

definition confirmed :: "string \<Rightarrow> bool" where
  "confirmed response = (map py_lower_char (py_strip response) \<in> {''y'', ''yes''})"

text \<open>
  What a run prints, one constructor for each \<^verbatim>\<open>print\<close> of \<^verbatim>\<open>process_device\<close>, and how
  it ends. \<open>Written doc text\<close>: \<open>text\<close> was written to the output path, the
  serialization of \<open>doc\<close>. \<open>Failed e\<close>: the run ended with exception \<open>e\<close> and
  wrote nothing; the handlers at the end of \<^verbatim>\<open>process_device\<close> catch
  \<^verbatim>\<open>FileNotFoundError\<close>, \<^verbatim>\<open>ValueError\<close>, \<^verbatim>\<open>KeyError\<close> and \<^verbatim>\<open>JSONDecodeError\<close>, print
  the error and exit with status 1.
\<close>

datatype message =
    OutputPath
  | Identical
  | NoChangesNeeded
  | DifferencesFound
  | DiffLine diff_line
  | StructuralDifferences
  | OverwritePrompt
  | OperationCancelled
  | Saved json
  | SavedNew
  | ErrorMessage

datatype outcome =
    Unchanged
  | Cancelled
  | Written json string
  | Failed error

definition caught :: "error \<Rightarrow> bool" where
  "caught e = (e \<in> {FileNotFoundError, ImportPathError, MergeError, KeyError, JSONDecodeError})"

definition fail :: "message list \<Rightarrow> error \<Rightarrow> message list \<times> outcome" where
  "fail printed e = (printed @ (if caught e then [ErrorMessage] else []), Failed e)"

text \<open>The last part of \<^verbatim>\<open>process_device\<close>, from "Add metadata to resolved config" on.\<close>

definition write_artifact ::
  "env \<Rightarrow> bool \<Rightarrow> bool \<Rightarrow> message list \<Rightarrow> json \<Rightarrow> json \<Rightarrow> string \<Rightarrow> message list \<times> outcome" where
  "write_artifact E silent_mode file_exists printed resolved_config existing_version current_timestamp =
     (case py_setitem resolved_config ''vers'' existing_version of
        Inl e \<Rightarrow> fail printed e
      | Inr r1 \<Rightarrow>
          (case py_setitem r1 ''last_update'' (JStr current_timestamp) of
             Inl e \<Rightarrow> fail printed e
           | Inr doc \<Rightarrow>
               (printed @
                  [if silent_mode then OutputPath
                   else if file_exists then Saved existing_version else SavedNew],
                Written doc (json_dumps E doc @ [newline]))))"

text \<open>
  \<^verbatim>\<open>process_device\<close>. \<open>current_timestamp\<close> is \<^verbatim>\<open>datetime.now().isoformat()\<close>,
  \<open>response\<close> the line \<^verbatim>\<open>input()\<close> returns, \<open>existing_file\<close> the text at the output
  path, \<open>None\<close> when \<^verbatim>\<open>output_path.exists()\<close> is false.
\<close>

definition process_device ::
  "env \<Rightarrow> nat \<Rightarrow> string \<Rightarrow> string \<Rightarrow> bool \<Rightarrow> string \<Rightarrow> string \<Rightarrow> string option
     \<Rightarrow> message list \<times> outcome" where
  "process_device E depth manufacturer_id device_filename silent_mode current_timestamp response
       existing_file =
     (case resolve_device_config E depth manufacturer_id device_filename of
        Inl e \<Rightarrow> fail [] e
      | Inr resolved_config \<Rightarrow>
          (case existing_file of
             None \<Rightarrow>
               write_artifact E silent_mode False [] resolved_config (JNum 1) current_timestamp
           | Some text \<Rightarrow>
               (case json_loads E text of
                  None \<Rightarrow> fail [] JSONDecodeError
                | Some existing_data \<Rightarrow>
                    (case py_get existing_data ''vers'' (JNum 1) of
                       Inl e \<Rightarrow> fail [] e
                     | Inr existing_version \<Rightarrow>
                    (case py_copy resolved_config of
                       Inl e \<Rightarrow> fail [] e
                     | Inr t0 \<Rightarrow>
                    (case py_setitem t0 ''vers'' existing_version of
                       Inl e \<Rightarrow> fail [] e
                     | Inr t1 \<Rightarrow>
                    (case py_get existing_data ''last_update'' (JStr current_timestamp) of
                       Inl e \<Rightarrow> fail [] e
                     | Inr last_update \<Rightarrow>
                    (case py_setitem t1 ''last_update'' last_update of
                       Inl e \<Rightarrow> fail [] e
                     | Inr temp_resolved \<Rightarrow>
                         if json_objects_equal existing_data temp_resolved then
                           (if silent_mode then [OutputPath] else [Identical, NoChangesNeeded],
                            Unchanged)
                         else if silent_mode then
                           (case py_add_one existing_version of
                              Inl e \<Rightarrow> fail [] e
                            | Inr v \<Rightarrow>
                                write_artifact E silent_mode True [] resolved_config v
                                  current_timestamp)
                         else
                           (let diff_report = generate_diff_report existing_data temp_resolved [];
                                shown = DifferencesFound #
                                  (if diff_report \<noteq> [] then map DiffLine diff_report
                                   else [StructuralDifferences]) @ [OverwritePrompt]
                            in if \<not> confirmed response then
                                 (shown @ [OperationCancelled], Cancelled)
                               else
                                 (case py_add_one existing_version of
                                    Inl e \<Rightarrow> fail shown e
                                  | Inr v \<Rightarrow>
                                      write_artifact E silent_mode True shown resolved_config v
                                        current_timestamp))))))))))"

section \<open>The notions the specification uses\<close>

text \<open>
  The numeric value Python gives a boolean or a number (\<^verbatim>\<open>True\<close> is 1, \<^verbatim>\<open>False\<close> is 0),
  and equality of two scalars: by numeric value where both have one, identity otherwise.
\<close>

definition num_value :: "json \<Rightarrow> int option" where
  "num_value v =
     (case v of JBool b \<Rightarrow> Some (if b then 1 else 0) | JNum n \<Rightarrow> Some n | _ \<Rightarrow> None)"

definition scalar_eq :: "json \<Rightarrow> json \<Rightarrow> bool" where
  "scalar_eq a b =
     (case num_value a of
        Some m \<Rightarrow> num_value b = Some m
      | None \<Rightarrow> num_value b = None \<and> a = b)"



text \<open>Some Mapping in the value, at some depth, has the key \<^verbatim>\<open>$import\<close>.\<close>

fun has_import :: "json \<Rightarrow> bool" where
  "has_import (JObj d) = (dict_get d ''$import'' \<noteq> None \<or> list_ex (\<lambda>kv. has_import (snd kv)) d)"
| "has_import (JArr xs) = list_ex has_import xs"
| "has_import _ = False"


text \<open>
  The version the reconciler reads from a previous artifact, 1 when the artifact has no
  \<^verbatim>\<open>vers\<close>, and the comparison copy: the new document with the previous version and
  the previous \<^verbatim>\<open>last_update\<close> (the current timestamp when there is none) spliced in.
\<close>

definition previous_version :: "pydict \<Rightarrow> json" where
  "previous_version ed = (case dict_get ed ''vers'' of Some v \<Rightarrow> v | None \<Rightarrow> JNum 1)"

definition comparison_copy :: "pydict \<Rightarrow> pydict \<Rightarrow> string \<Rightarrow> json" where
  "comparison_copy rc ed current_timestamp =
     JObj (dict_set (dict_set rc ''vers'' (previous_version ed)) ''last_update''
       (case dict_get ed ''last_update'' of Some l \<Rightarrow> l | None \<Rightarrow> JStr current_timestamp))"

section \<open>A small configuration tree\<close>

text \<open>
  Two files under the base directory \<^verbatim>\<open>d\<close>, used to run the program on concrete input:
  the device file \<^verbatim>\<open>d/m/dev.json\<close> and the template file \<^verbatim>\<open>d/m/t.json\<close>. Paths are
  joined with \<^verbatim>\<open>/\<close>, the parent of a path is the path without its last component,
  and \<^verbatim>\<open>json.loads\<close> is tabulated at the texts it is applied to.
\<close>

definition quoted :: "string \<Rightarrow> string" where
  "quoted s = dquote # s @ [dquote]"

definition dev_text :: string where
  "dev_text =
     ''{'' @ quoted ''p'' @ '':{'' @ quoted ''$import'' @ '':'' @ quoted ''t.json#t'' @ '','' @
     quoted ''b'' @ '':99,'' @ quoted ''s'' @ '':{'' @ quoted ''$import'' @ '':'' @
     quoted ''#u'' @ ''}},'' @ quoted ''u'' @ '':'' @ quoted ''D'' @ ''}''"

definition dev_json :: json where
  "dev_json =
     JObj [(''p'', JObj [(''$import'', JStr ''t.json#t''), (''b'', JNum 99),
                        (''s'', JObj [(''$import'', JStr ''#u'')])]),
           (''u'', JStr ''D'')]"

definition tmpl_text :: string where
  "tmpl_text =
     ''{'' @ quoted ''t'' @ '':{'' @ quoted ''$import'' @ '':'' @ quoted ''#u'' @ ''},'' @
     quoted ''u'' @ '':{'' @ quoted ''a'' @ '':1,'' @ quoted ''b'' @ '':2}}''"

definition tmpl_json :: json where
  "tmpl_json =
     JObj [(''t'', JObj [(''$import'', JStr ''#u'')]),
           (''u'', JObj [(''a'', JNum 1), (''b'', JNum 2)])]"

text \<open>
  Four previous artifacts for the device: the resolved document at version 3, an older
  document at version 3, the resolved document with a timestamp and no version, and an
  older document at version -5. Their texts stand for the files' contents.
\<close>

definition resolved_dev :: pydict where
  "resolved_dev =
     [(''p'', JObj [(''a'', JNum 1), (''b'', JNum 99), (''s'', JStr ''D'')]),
      (''u'', JStr ''D'')]"

definition artifact_same :: json where
  "artifact_same = JObj (resolved_dev @ [(''vers'', JNum 3), (''last_update'', JStr ''t0'')])"

definition artifact_older :: json where
  "artifact_older =
     JObj [(''u'', JStr ''old''), (''vers'', JNum 3), (''last_update'', JStr ''t0'')]"

definition artifact_unversioned :: json where
  "artifact_unversioned = JObj (resolved_dev @ [(''last_update'', JStr ''t0'')])"

definition artifact_negative :: json where
  "artifact_negative = JObj [(''u'', JStr ''old''), (''vers'', JNum (- 5))]"

definition demo_env :: env where
  "demo_env =
     \<lparr> base_dir = ''d'',
       path_join = (\<lambda>p s. p @ ''/'' @ s),
       path_parent = (\<lambda>p. rev (tl (dropWhile (\<lambda>c. c \<noteq> CHR ''/'') (rev p)))),
       read_text = map_of [(''d/m/dev.json'', dev_text @ '' // device''),
                           (''d/m/t.json'', tmpl_text)],
       json_loads = map_of [(dev_text, dev_json), (tmpl_text, tmpl_json),
                            (''same, version 3'', artifact_same),
                            (''older, version 3'', artifact_older),
                            (''same, no version'', artifact_unversioned),
                            (''older, version -5'', artifact_negative)],
       json_dumps = (\<lambda>v. []) \<rparr>"

section \<open>The comment stripper, line by line\<close>

lemma split_sep_ne: "split_sep c s \<noteq> []"
  by (induction s) (auto split: list.splits)

lemma split_sep_append: "split_sep c (a @ c # b) = split_sep c a @ split_sep c b"
  by (induction a) (auto simp: split_sep_ne split: list.splits)

lemma join_sep_Cons: "ys \<noteq> [] \<Longrightarrow> join_sep c (l # ys) = l @ c # join_sep c ys"
  by (cases ys) auto

lemma join_sep_append:
  "xs \<noteq> [] \<Longrightarrow> ys \<noteq> [] \<Longrightarrow> join_sep c (xs @ ys) = join_sep c xs @ c # join_sep c ys"
proof (induction xs)
  case Nil
  then show ?case by simp
next
  case (Cons a xs)
  then show ?case by (cases "xs = []") (simp_all add: join_sep_Cons)
qed

lemma split_sep_no_sep: "l \<in> set (split_sep c s) \<Longrightarrow> c \<notin> set l"
proof (induction s arbitrary: l)
  case Nil
  then show ?case by simp
next
  case (Cons x xs)
  obtain h t where ht: "split_sep c xs = h # t"
    using split_sep_ne [of c xs] by (cases "split_sep c xs") auto
  with Cons show ?case by (auto split: if_splits)
qed

lemma split_sep_plain: "c \<notin> set l \<Longrightarrow> split_sep c l = [l]"
  by (induction l) auto

lemma split_join:
  "ls \<noteq> [] \<Longrightarrow> \<forall>l \<in> set ls. c \<notin> set l \<Longrightarrow> split_sep c (join_sep c ls) = ls"
proof (induction ls)
  case Nil
  then show ?case by simp
next
  case (Cons l ls)
  show ?case
  proof (cases ls)
    case Nil
    with Cons.prems show ?thesis by (simp add: split_sep_plain)
  next
    case (Cons m ms)
    have "join_sep c (l # ls) = l @ c # join_sep c ls"
      using Cons by simp
    moreover have "split_sep c (join_sep c ls) = ls"
      using Cons Cons.prems Cons.IH by simp
    ultimately show ?thesis
      using Cons.prems by (simp add: split_sep_append split_sep_plain)
  qed
qed

lemma rstrip_prefix: "take (length (rstrip s)) s = rstrip s"
proof -
  have "rev s = takeWhile py_isspace (rev s) @ dropWhile py_isspace (rev s)" by simp
  then have "s = rev (dropWhile py_isspace (rev s)) @ rev (takeWhile py_isspace (rev s))"
    by (metis rev_append rev_rev_ident)
  then have "s = rstrip s @ rev (takeWhile py_isspace (rev s))" by (simp add: rstrip_def)
  then show ?thesis by (metis append_eq_conv_conj)
qed

lemma rstrip_length: "length (rstrip s) \<le> length s"
  by (simp add: rstrip_def length_dropWhile_le [of py_isspace "rev s", simplified])

lemma strip_line_prefix: "take (length (strip_line l)) l = strip_line l"
proof (cases "find_comment False False 0 l")
  case None
  then show ?thesis by (simp add: strip_line_def)
next
  case (Some i)
  have "take (length (rstrip (take i l))) (take i l) = rstrip (take i l)"
    by (rule rstrip_prefix)
  moreover have "length (rstrip (take i l)) \<le> i"
    using rstrip_length [of "take i l"] by simp
  ultimately show ?thesis using Some by (simp add: strip_line_def min_def)
qed

lemma strip_line_no_sep: "c \<notin> set l \<Longrightarrow> c \<notin> set (strip_line l)"
  by (metis strip_line_prefix in_set_takeD)

lemma scan_state_snoc: "scan_state (p @ [c]) = scan_step (scan_state p) c"
  by (simp add: scan_state_def)

lemma find_comment_scan:
  "scan_state p = (a, b) \<Longrightarrow>
   find_comment a b (length p) l = find (comment_start (p @ l)) [length p..<length (p @ l)]"
proof (induction l arbitrary: p a b)
  case Nil
  then show ?case by simp
next
  case (Cons c cs)
  have up: "[length p..<length (p @ c # cs)] = length p # [length (p @ [c])..<length ((p @ [c]) @ cs)]"
    by (simp add: upt_rec)
  have cs: "comment_start (p @ c # cs) (length p) =
        (cs \<noteq> [] \<and> c = CHR ''/'' \<and> hd cs = CHR ''/'' \<and> \<not> a \<and> \<not> b)"
    using Cons.prems by (cases cs) (auto simp: comment_start_def nth_append)
  have step: "find_comment (fst (scan_step (a, b) c)) (snd (scan_step (a, b) c)) (length (p @ [c])) cs
      = find (comment_start ((p @ [c]) @ cs)) [length (p @ [c])..<length ((p @ [c]) @ cs)]"
    by (rule Cons.IH) (simp add: scan_state_snoc Cons.prems)
  have neq: "CHR ''/'' \<noteq> backslash" "CHR ''/'' \<noteq> dquote"
    by (simp_all add: backslash_def dquote_def)
  show ?case
    unfolding up find.simps cs
    using step neq by (auto simp: scan_step_def)
qed

lemma find_comment_first: "find_comment False False 0 line = first_comment line"
  using find_comment_scan [of "[]" False False line]
  by (simp add: first_comment_def scan_state_def)

lemma strip_line_eq:
  "strip_line l = (case first_comment l of Some i \<Rightarrow> rstrip (take i l) | None \<Rightarrow> l)"
  by (simp add: strip_line_def find_comment_first)

lemma split_strip_comments:
  "split_sep newline (strip_comments txt) = map strip_line (split_sep newline txt)"
proof -
  let ?ls = "split_sep newline txt"
  have "newline \<notin> set l" if "l \<in> set (map strip_line ?ls)" for l
    using that split_sep_no_sep strip_line_no_sep by auto
  then show ?thesis
    unfolding strip_comments_def using split_join [of "map strip_line ?ls" newline]
    by (simp add: split_sep_ne)
qed

text \<open>
  C8. For every text: each output line is the input line cut at the first \<^verbatim>\<open>//\<close> that
  the scanner reads outside a string literal and not after a backslash, with the white
  space before the cut removed too, and the whole line when there is no such
  position (a \<^verbatim>\<open>//\<close> inside a string literal stays). The output has as many lines as
  the input, each a prefix of its input line, and the scanner starts afresh on every
  line: stripping two texts joined by a newline is stripping each of them.
\<close>

theorem strip_comments_per_line:
  "strip_comments txt =
     join_sep newline
       (map (\<lambda>line. case first_comment line of
                       Some i \<Rightarrow> rstrip (take i line)
                     | None \<Rightarrow> line)
          (split_sep newline txt)) \<and>
   length (split_sep newline (strip_comments txt)) = length (split_sep newline txt) \<and>
   list_all2 (\<lambda>out line. take (length out) line = out)
     (split_sep newline (strip_comments txt)) (split_sep newline txt) \<and>
   strip_comments (txt @ newline # txt') =
     strip_comments txt @ newline # strip_comments txt'"
proof -
  have a: "strip_comments txt =
     join_sep newline
       (map (\<lambda>line. case first_comment line of
                       Some i \<Rightarrow> rstrip (take i line)
                     | None \<Rightarrow> line)
          (split_sep newline txt))"
    unfolding strip_comments_def using strip_line_eq by presburger
  have b: "length (split_sep newline (strip_comments txt)) = length (split_sep newline txt)"
    by (simp add: split_strip_comments)
  have c: "list_all2 (\<lambda>out line. take (length out) line = out)
     (split_sep newline (strip_comments txt)) (split_sep newline txt)"
    unfolding split_strip_comments by (simp add: list_all2_conv_all_nth strip_line_prefix)
  have d: "strip_comments (txt @ newline # txt') =
     strip_comments txt @ newline # strip_comments txt'"
    by (simp add: strip_comments_def split_sep_append join_sep_append split_sep_ne)
  from a b c d show ?thesis by blast
qed

theorem strip_comments_per_line_witness:
  "strip_comments ([dquote, CHR ''/'', CHR ''/'', dquote, CHR '' '', CHR ''/'', CHR ''/'', CHR ''c'']
       @ newline # ''b'')
     = [dquote, CHR ''/'', CHR ''/'', dquote] @ newline # ''b'' \<and>
   length (split_sep newline (strip_comments
     ([dquote, CHR ''/'', CHR ''/'', dquote, CHR '' '', CHR ''/'', CHR ''/'', CHR ''c'']
       @ newline # ''b''))) = 2"
proof -
  let ?t = "[dquote, CHR ''/'', CHR ''/'', dquote, CHR '' '', CHR ''/'', CHR ''/'', CHR ''c'']"
  have l1: "strip_comments ?t = [dquote, CHR ''/'', CHR ''/'', dquote]"
    by code_simp
  have l2: "strip_comments ''b'' = ''b''"
    by code_simp
  have n: "length (split_sep newline (?t @ newline # ''b'')) = 2"
    by code_simp
  have d: "strip_comments (?t @ newline # ''b'') =
      strip_comments ?t @ newline # strip_comments ''b''"
    using strip_comments_per_line [of ?t "''b''"] by blast
  have b: "length (split_sep newline (strip_comments (?t @ newline # ''b''))) =
      length (split_sep newline (?t @ newline # ''b''))"
    using strip_comments_per_line [of "?t @ newline # ''b''" "[]"] by blast
  from d l1 l2 have "strip_comments (?t @ newline # ''b'') =
      [dquote, CHR ''/'', CHR ''/'', dquote] @ newline # ''b''"
    by (simp only:)
  moreover from b n have "length (split_sep newline (strip_comments (?t @ newline # ''b''))) = 2"
    by (simp only:)
  ultimately show ?thesis by blast
qed

section \<open>The differ on a Mapping against a Sequence\<close>










section \<open>Normalization and semantic equality\<close>

lemma distinct_keys_sort_key:
  "distinct (map fst d) \<Longrightarrow> distinct (map fst (sort_key fst d))"
  by (simp add: distinct_map)

lemma dict_get_sort_key:
  assumes "distinct (map fst d)"
  shows "dict_get (sort_key fst d) k = dict_get d k"
proof (cases "dict_get d k")
  case None
  then have "k \<notin> fst ` set d" by (simp add: dict_get_def map_of_eq_None_iff)
  then have "k \<notin> fst ` set (sort_key fst d)" by simp
  then have "dict_get (sort_key fst d) k = None"
    unfolding dict_get_def map_of_eq_None_iff .
  with None show ?thesis by simp
next
  case (Some v)
  then have "(k, v) \<in> set (sort_key fst d)"
    by (auto simp: dict_get_def dest: map_of_SomeD)
  with distinct_keys_sort_key [OF assms] Some show ?thesis
    by (simp add: dict_get_def)
qed

lemma dict_get_map_values:
  "dict_get (map (\<lambda>kv. (fst kv, f (snd kv))) d) k = map_option f (dict_get d k)"
  by (induction d) (auto simp: dict_get_def)

lemma dict_get_normalized:
  "distinct (map fst d) \<Longrightarrow>
   dict_get (map (\<lambda>kv. (fst kv, normalize_json (snd kv))) (sort_key fst d)) k =
     map_option normalize_json (dict_get d k)"
  by (simp add: dict_get_map_values dict_get_sort_key)

lemma dict_get_in_set: "dict_get d k = Some v \<Longrightarrow> (k, v) \<in> set d"
  by (simp add: dict_get_def map_of_SomeD)

lemma same_keys_iff_same_length:
  assumes "distinct (map fst d)" and "distinct (map fst e)"
    and "\<forall>kv \<in> set d. dict_get e (fst kv) \<noteq> None"
  shows "(length d = length e) = (set (map fst d) = set (map fst e))"
proof -
  have sub: "set (map fst d) \<subseteq> set (map fst e)"
    using assms(3) by (auto simp: dict_get_def map_of_eq_None_iff)
  have cd: "card (set (map fst d)) = length d"
    using assms(1) distinct_card by fastforce
  have ce: "card (set (map fst e)) = length e"
    using assms(2) distinct_card by fastforce
  show ?thesis
  proof
    assume "length d = length e"
    with cd ce have "card (set (map fst d)) = card (set (map fst e))" by simp
    with sub show "set (map fst d) = set (map fst e)"
      by (simp add: card_subset_eq)
  next
    assume "set (map fst d) = set (map fst e)"
    with cd ce show "length d = length e" by simp
  qed
qed

lemma py_eq_scalar:
  "\<not> is_container a \<Longrightarrow> \<not> is_container b \<Longrightarrow> py_eq a b = scalar_eq a b"
  by (cases a; cases b) (auto simp: scalar_eq_def num_value_def is_container_def)






section \<open>The resolver leaves no import behind\<close>

lemma dict_get_dict_set:
  "dict_get (dict_set d k v) k' = (if k' = k then Some v else dict_get d k')"
  by (induction d) (auto simp: dict_get_def)

lemma set_dict_set: "set (dict_set d k v) \<subseteq> insert (k, v) (set d)"
  by (induction d k v rule: dict_set.induct) (auto split: if_splits)

lemma keys_dict_set: "fst ` set (dict_set d k v) = insert k (fst ` set d)"
  by (induction d k v rule: dict_set.induct) (auto split: if_splits)

lemma distinct_dict_set: "distinct (map fst d) \<Longrightarrow> distinct (map fst (dict_set d k v))"
  by (induction d k v rule: dict_set.induct) (auto simp: keys_dict_set)

lemma has_import_JObj:
  "has_import (JObj d) = (dict_get d ''$import'' \<noteq> None \<or> (\<exists>kv \<in> set d. has_import (snd kv)))"
  by (simp add: list_ex_iff)

lemma resolve_list_no_import:
  assumes "\<And>x c r c'. f x c = Inr (r, c') \<Longrightarrow> \<not> has_import r"
    and "resolve_list f xs c = Inr (ys, c')"
  shows "\<forall>y \<in> set ys. \<not> has_import y"
  using assms(2)
proof (induction xs arbitrary: c ys)
  case Nil
  then show ?case by simp
next
  case (Cons x xs)
  from Cons.prems obtain y c1 ys1 where
    f: "f x c = Inr (y, c1)" and
    rest: "resolve_list f xs c1 = Inr (ys1, c')" and
    res: "ys = y # ys1"
    by (auto split: sum.splits)
  from Cons.IH [OF rest] assms(1) [OF f] res show ?case by simp
qed

lemma resolve_values_no_import:
  assumes "\<And>x c r c'. f x c = Inr (r, c') \<Longrightarrow> \<not> has_import r"
    and "resolve_values f kvs c = Inr (kvs', c')"
  shows "map fst kvs' = map fst kvs \<and> (\<forall>kv \<in> set kvs'. \<not> has_import (snd kv))"
  using assms(2)
proof (induction kvs arbitrary: c kvs')
  case Nil
  then show ?case by simp
next
  case (Cons kv kvs)
  obtain k v where kv: "kv = (k, v)" by (cases kv)
  from Cons.prems kv obtain v' c1 kvs1 where
    f: "f v c = Inr (v', c1)" and
    rest: "resolve_values f kvs c1 = Inr (kvs1, c')" and
    res: "kvs' = (k, v') # kvs1"
    by (auto split: sum.splits)
  from Cons.IH [OF rest] assms(1) [OF f] res kv show ?case by simp
qed

lemma merge_overrides_no_import:
  assumes "\<And>x c r c'. f x c = Inr (r, c') \<Longrightarrow> \<not> has_import r"
    and "merge_overrides f kvs result c = Inr (result', c')"
    and "\<not> has_import (JObj result)"
  shows "\<not> has_import (JObj result')"
  using assms(2,3)
proof (induction kvs arbitrary: result c)
  case Nil
  then show ?case by simp
next
  case (Cons kv kvs)
  obtain k v where kv: "kv = (k, v)" by (cases kv)
  show ?case
  proof (cases "k \<noteq> ''$import''")
    case True
    with Cons.prems(1) kv obtain v' c1 where
      f: "f v c = Inr (v', c1)" and
      rest: "merge_overrides f kvs (dict_set result k v') c1 = Inr (result', c')"
      by (auto split: sum.splits)
    have "\<not> has_import (JObj (dict_set result k v'))"
      using Cons.prems(2) True assms(1) [OF f] set_dict_set [of result k v']
      by (auto simp: dict_get_dict_set list_ex_iff)
    with Cons.IH [OF rest] show ?thesis .
  next
    case False
    with Cons.prems kv Cons.IH show ?thesis by simp
  qed
qed

lemma dict_get_same_keys:
  "map fst d' = map fst d \<Longrightarrow> (dict_get d' k = None) = (dict_get d k = None)"
  by (metis dict_get_def map_of_eq_None_iff set_map)

lemma resolve_imports_no_import:
  "resolve_imports E depth data current_file c = Inr (r, c') \<Longrightarrow> \<not> has_import r"
proof (induction depth arbitrary: data current_file c r c')
  case 0
  then show ?case by simp
next
  case (Suc depth)
  have f: "\<not> has_import r'" if "resolve_imports E depth x fl c0 = Inr (r', c1)"
    for x fl c0 r' c1
    using that by (rule Suc.IH)
  show ?case
  proof (cases data)
    case (JObj items)
    show ?thesis
    proof (cases "dict_get items ''$import''")
      case None
      with Suc.prems JObj obtain items' where
        rv: "resolve_values (\<lambda>v. resolve_imports E depth v current_file) items c = Inr (items', c')"
        and r: "r = JObj items'"
        by (auto split: sum.splits)
      from resolve_values_no_import [OF f rv]
      have "map fst items' = map fst items" and "\<forall>kv \<in> set items'. \<not> has_import (snd kv)"
        by simp_all
      with None r dict_get_same_keys [of items' items "''$import''"] show ?thesis
        by (simp add: list_ex_iff)
    next
      case (Some import_path)
      with Suc.prems JObj obtain tf key tv c1 rt c2 where
        "resolve_import_path E import_path current_file = Inr (tf, key)"
        "get_template_value E tf key c = Inr (tv, c1)" and
        rt: "resolve_imports E depth tv tf c1 = Inr (rt, c2)" and
        fin: "(case rt of
                JObj template_items \<Rightarrow>
                  (case merge_overrides (\<lambda>v. resolve_imports E depth v current_file)
                          items template_items c2 of
                     Inl e \<Rightarrow> Inl e
                   | Inr (result, c3) \<Rightarrow> Inr (JObj result, c3))
              | _ \<Rightarrow> if length items = 1 then Inr (rt, c2) else Inl MergeError) = Inr (r, c')"
        by (auto split: sum.splits)
      from f [OF rt] have nrt: "\<not> has_import rt" .
      show ?thesis
      proof (cases rt)
        case (JObj tm)
        with fin obtain res where
          mo: "merge_overrides (\<lambda>v. resolve_imports E depth v current_file) items tm c2 = Inr (res, c')"
          and r: "r = JObj res"
          by (auto split: sum.splits)
        from merge_overrides_no_import [OF f mo] nrt JObj r show ?thesis by simp
      qed (use fin nrt in \<open>auto split: if_splits\<close>)
    qed
  next
    case (JArr xs)
    with Suc.prems obtain ys where
      rl: "resolve_list (\<lambda>item. resolve_imports E depth item current_file) xs c = Inr (ys, c')"
      and r: "r = JArr ys"
      by (auto split: sum.splits)
    from resolve_list_no_import [OF f rl] r show ?thesis by (simp add: list_ex_iff)
  qed (use Suc.prems in auto)
qed

section \<open>Running the resolver on the small tree\<close>

lemma strip_dev_text: "strip_comments (dev_text @ '' // device'') = dev_text"
  by (simp add: strip_comments_def dev_text_def quoted_def dquote_def newline_def
      backslash_def strip_line_def rstrip_def py_isspace_def)

lemma strip_tmpl_text: "strip_comments tmpl_text = tmpl_text"
  by (simp add: strip_comments_def tmpl_text_def quoted_def dquote_def newline_def
      backslash_def strip_line_def rstrip_def py_isspace_def)

lemma dev_text_neq_tmpl_text: "tmpl_text \<noteq> dev_text"
  by (simp add: dev_text_def tmpl_text_def quoted_def)

lemma load_dev: "load_json_file demo_env ''d/m/dev.json'' = Inr dev_json"
  by (simp add: load_json_file_def demo_env_def strip_dev_text)

lemma load_tmpl: "load_json_file demo_env ''d/m/t.json'' = Inr tmpl_json"
  by (simp add: load_json_file_def demo_env_def strip_tmpl_text dev_text_neq_tmpl_text)

lemma demo_paths:
  "resolve_import_path demo_env (JStr ''t.json#t'') ''d/m/dev.json'' = Inr (''d/m/t.json'', ''t'')"
  "resolve_import_path demo_env (JStr ''#u'') fl = Inr (fl, ''u'')"
  by (simp_all add: resolve_import_path_def demo_env_def)

lemma demo_template_t:
  "get_template_value demo_env ''d/m/t.json'' ''t'' Map.empty =
     Inr (JObj [(''$import'', JStr ''#u'')], [''d/m/t.json'' \<mapsto> tmpl_json])"
  by (simp add: get_template_value_def load_tmpl template_lookup_def tmpl_json_def dict_get_def)

lemma demo_template_u:
  "get_template_value demo_env ''d/m/t.json'' ''u'' [''d/m/t.json'' \<mapsto> tmpl_json] =
     Inr (JObj [(''a'', JNum 1), (''b'', JNum 2)], [''d/m/t.json'' \<mapsto> tmpl_json])"
  by (simp add: get_template_value_def template_lookup_def tmpl_json_def dict_get_def)

lemma demo_dev_u:
  "get_template_value demo_env ''d/m/dev.json'' ''u'' [''d/m/t.json'' \<mapsto> tmpl_json] =
     Inr (JStr ''D'', [''d/m/t.json'' \<mapsto> tmpl_json, ''d/m/dev.json'' \<mapsto> dev_json])"
  by (simp add: get_template_value_def load_dev template_lookup_def dev_json_def dict_get_def)


lemma demo_resolve_s:
  "resolve_imports demo_env (Suc (Suc n)) (JObj [(''$import'', JStr ''#u'')]) ''d/m/dev.json''
     [''d/m/t.json'' \<mapsto> tmpl_json] =
   Inr (JStr ''D'', [''d/m/t.json'' \<mapsto> tmpl_json, ''d/m/dev.json'' \<mapsto> dev_json])"
  by (simp add: dict_get_def demo_paths demo_dev_u)


lemma demo_resolve_dev:
  "resolve_device_config demo_env (Suc (Suc (Suc (Suc (Suc n))))) ''m'' ''dev.json'' =
   Inr (JObj [(''p'', JObj [(''a'', JNum 1), (''b'', JNum 99), (''s'', JStr ''D'')]),
              (''u'', JStr ''D'')])"
proof -
  have f: "path_join demo_env (path_join demo_env (base_dir demo_env) ''m'') ''dev.json'' =
      ''d/m/dev.json''"
    by (simp add: demo_env_def)
  have r: "read_text demo_env ''d/m/dev.json'' = Some (dev_text @ '' // device'')"
    by (simp add: demo_env_def)
  have "map_sum id fst (resolve_imports demo_env (Suc (Suc (Suc (Suc (Suc n))))) dev_json
      ''d/m/dev.json'' Map.empty) =
    Inr (JObj [(''p'', JObj [(''a'', JNum 1), (''b'', JNum 99), (''s'', JStr ''D'')]),
               (''u'', JStr ''D'')])"
    unfolding dev_json_def
    by (simp add: dict_get_def demo_paths demo_template_t demo_template_u demo_dev_u)
  then show ?thesis
    by (auto simp: resolve_device_config_def f r load_dev Let_def
        simp del: resolve_imports.simps split: sum.splits)
qed

text \<open>
  C4. Whenever the resolver returns a value, at any depth of the call stack and from any
  cache, no Mapping anywhere in that value has the key \<^verbatim>\<open>$import\<close>; the same holds of
  what \<^verbatim>\<open>resolve_device_config\<close> returns for a device file.
\<close>

theorem resolver_leaves_no_import:
  "(resolve_imports E depth data current_file c = Inr (r, c') \<longrightarrow> \<not> has_import r) \<and>
   (resolve_device_config E depth manufacturer_id device_filename = Inr r' \<longrightarrow>
      \<not> has_import r')"
proof -
  have "\<not> has_import r'"
    if "resolve_device_config E depth manufacturer_id device_filename = Inr r'"
  proof -
    from that obtain cfg fl c0 c1 where
      "resolve_imports E depth cfg fl c0 = Inr (r', c1)"
      by (auto simp: resolve_device_config_def Let_def split: option.splits sum.splits)
    then show ?thesis by (rule resolve_imports_no_import)
  qed
  then show ?thesis using resolve_imports_no_import by blast
qed

theorem resolver_leaves_no_import_witness:
  "has_import dev_json \<and>
   resolve_device_config demo_env (Suc (Suc (Suc (Suc (Suc 0))))) ''m'' ''dev.json'' =
     Inr (JObj [(''p'', JObj [(''a'', JNum 1), (''b'', JNum 99), (''s'', JStr ''D'')]),
                (''u'', JStr ''D'')]) \<and>
   \<not> has_import (JObj [(''p'', JObj [(''a'', JNum 1), (''b'', JNum 99), (''s'', JStr ''D'')]),
                        (''u'', JStr ''D'')])"
proof -
  have "has_import dev_json"
    by (simp add: dev_json_def dict_get_def)
  then show ?thesis
    using demo_resolve_dev [of 0]
      resolver_leaves_no_import [where E = demo_env
        and depth = "Suc (Suc (Suc (Suc (Suc 0))))" and manufacturer_id = "''m''"
        and device_filename = "''dev.json''"]
    by blast
qed

section \<open>Merging the importing node over the template\<close>





lemma resolve_imports_import_node:
  assumes "dict_get items ''$import'' = Some import_path"
    and "resolve_import_path E import_path current_file = Inr (template_file, template_key)"
    and "get_template_value E template_file template_key c = Inr (template_value, c1)"
  shows "resolve_imports E (Suc depth) (JObj items) current_file c =
    (case resolve_imports E depth template_value template_file c1 of
       Inl e \<Rightarrow> Inl e
     | Inr (resolved_template, c2) \<Rightarrow>
         (case resolved_template of
            JObj template_items \<Rightarrow>
              (case merge_overrides (\<lambda>v. resolve_imports E depth v current_file)
                      items template_items c2 of
                 Inl e \<Rightarrow> Inl e
               | Inr (result, c3) \<Rightarrow> Inr (JObj result, c3))
          | _ \<Rightarrow> if length items = 1 then Inr (resolved_template, c2) else Inl MergeError))"
  using assms by simp



text \<open>
  C6. Let a Mapping node carry \<^verbatim>\<open>$import\<close>, and let the referenced template value
  resolve, relative to the template's file, to a value that is not a Mapping. When
  \<^verbatim>\<open>$import\<close> is the node's only entry, the node resolves to that value unchanged; when
  the node has any other key, resolution fails with the merge error and returns nothing.
\<close>

theorem import_of_non_mapping:
  assumes "dict_get items ''$import'' = Some import_path"
    and "resolve_import_path E import_path current_file = Inr (template_file, template_key)"
    and "get_template_value E template_file template_key c = Inr (template_value, c1)"
    and "resolve_imports E depth template_value template_file c1 = Inr (resolved_template, c2)"
    and "\<forall>tm. resolved_template \<noteq> JObj tm"
  shows "(items = [(''$import'', import_path)] \<longrightarrow>
      resolve_imports E (Suc depth) (JObj items) current_file c = Inr (resolved_template, c2)) \<and>
    ((\<exists>k v. (k, v) \<in> set items \<and> k \<noteq> ''$import'') \<longrightarrow>
      resolve_imports E (Suc depth) (JObj items) current_file c = Inl MergeError)"
proof -
  have eq: "resolve_imports E (Suc depth) (JObj items) current_file c =
      (if length items = 1 then Inr (resolved_template, c2) else Inl MergeError)"
    unfolding resolve_imports_import_node [OF assms(1-3)] assms(4)
    using assms(5) by (cases resolved_template) simp_all
  have "length items \<noteq> 1" if "(k, v) \<in> set items" "k \<noteq> ''$import''" for k v
  proof
    assume "length items = 1"
    then obtain x where x: "items = [x]"
      by (cases items) simp_all
    from assms(1) have "(''$import'', import_path) \<in> set items"
      by (rule dict_get_in_set)
    with x that show False by auto
  qed
  with eq show ?thesis by auto
qed

theorem import_of_non_mapping_witness:
  "resolve_imports demo_env (Suc (Suc 0)) (JObj [(''$import'', JStr ''#u'')]) ''d/m/dev.json''
     [''d/m/t.json'' \<mapsto> tmpl_json] =
     Inr (JStr ''D'', [''d/m/t.json'' \<mapsto> tmpl_json, ''d/m/dev.json'' \<mapsto> dev_json]) \<and>
   resolve_imports demo_env (Suc (Suc 0)) (JObj [(''$import'', JStr ''#u''), (''b'', JNum 99)])
     ''d/m/dev.json'' [''d/m/t.json'' \<mapsto> tmpl_json] = Inl MergeError"
proof -
  let ?c = "[''d/m/t.json'' \<mapsto> tmpl_json]"
  let ?c' = "[''d/m/t.json'' \<mapsto> tmpl_json, ''d/m/dev.json'' \<mapsto> dev_json]"
  have h1: "dict_get [(''$import'', JStr ''#u'')] ''$import'' = Some (JStr ''#u'')"
    and h1': "dict_get [(''$import'', JStr ''#u''), (''b'', JNum 99)] ''$import'' = Some (JStr ''#u'')"
    by (simp_all add: dict_get_def)
  have h4: "resolve_imports demo_env (Suc 0) (JStr ''D'') ''d/m/dev.json'' ?c' = Inr (JStr ''D'', ?c')"
    by simp
  have h5: "\<forall>tm. JStr ''D'' \<noteq> JObj tm"
    by simp
  have sib: "\<exists>k v. (k, v) \<in> set [(''$import'', JStr ''#u''), (''b'', JNum 99)] \<and> k \<noteq> ''$import''"
    by auto
  from import_of_non_mapping [OF h1 demo_paths(2) demo_dev_u h4 h5]
  have "resolve_imports demo_env (Suc (Suc 0)) (JObj [(''$import'', JStr ''#u'')])
      ''d/m/dev.json'' ?c = Inr (JStr ''D'', ?c')"
    by blast
  moreover from import_of_non_mapping [OF h1' demo_paths(2) demo_dev_u h4 h5] sib
  have "resolve_imports demo_env (Suc (Suc 0)) (JObj [(''$import'', JStr ''#u''), (''b'', JNum 99)])
      ''d/m/dev.json'' ?c = Inl MergeError"
    by blast
  ultimately show ?thesis by blast
qed

section \<open>The current file of each call\<close>


lemma takeWhile_upto:
  "c \<notin> set p \<Longrightarrow> takeWhile (\<lambda>x. x \<noteq> c) (p @ c # r) = p"
  by (induction p) auto

lemma dropWhile_upto:
  "c \<notin> set p \<Longrightarrow> dropWhile (\<lambda>x. x \<noteq> c) (p @ c # r) = c # r"
  by (induction p) auto


lemma import_path_base:
  assumes "CHR ''#'' \<notin> set p"
  shows "resolve_import_path E (JStr (''~/'' @ p @ CHR ''#'' # key)) current_file =
    Inr (path_join E (base_dir E) p, key)"
proof -
  let ?q = "''~/'' @ p"
  have q: "CHR ''#'' \<notin> set ?q" using assms by simp
  have "takeWhile (\<lambda>c. c \<noteq> CHR ''#'') (?q @ CHR ''#'' # key) = ?q"
    using q by (rule takeWhile_upto)
  moreover have "dropWhile (\<lambda>c. c \<noteq> CHR ''#'') (?q @ CHR ''#'' # key) = CHR ''#'' # key"
    using q by (rule dropWhile_upto)
  ultimately show ?thesis
    by (simp add: resolve_import_path_def)
qed






section \<open>One run of the reconciler\<close>




lemma process_device_existing:
  assumes "resolve_device_config E depth manufacturer_id device_filename = Inr (JObj rc)"
    and "json_loads E old = Some (JObj ed)"
  shows "snd (process_device E depth manufacturer_id device_filename silent_mode
      current_timestamp response (Some old)) =
    (if json_objects_equal (JObj ed) (comparison_copy rc ed current_timestamp) then Unchanged
     else if silent_mode \<or> confirmed response then
       (case py_add_one (previous_version ed) of
          Inl e \<Rightarrow> Failed e
        | Inr v \<Rightarrow>
            Written (JObj (dict_set (dict_set rc ''vers'' v) ''last_update'' (JStr current_timestamp)))
              (json_dumps E (JObj (dict_set (dict_set rc ''vers'' v) ''last_update''
                 (JStr current_timestamp))) @ [newline]))
     else Cancelled)"
  using assms
  by (simp add: process_device_def write_artifact_def py_setitem_def py_get_def py_copy_def
      fail_def comparison_copy_def previous_version_def Let_def split: sum.splits)



lemma written_version:
  "dict_get (dict_set (dict_set rc ''vers'' v) ''last_update'' l) ''vers'' = Some v"
  by (simp add: dict_get_dict_set)

lemma demo_resolved_dev:
  "resolve_device_config demo_env (Suc (Suc (Suc (Suc (Suc 0))))) ''m'' ''dev.json'' =
     Inr (JObj resolved_dev)"
  unfolding resolved_dev_def by (rule demo_resolve_dev)

lemma demo_artifacts:
  "json_loads demo_env ''same, version 3'' = Some artifact_same"
  "json_loads demo_env ''older, version 3'' = Some artifact_older"
  "json_loads demo_env ''same, no version'' = Some artifact_unversioned"
  "json_loads demo_env ''older, version -5'' = Some artifact_negative"
  by (simp_all add: demo_env_def dev_text_def tmpl_text_def quoted_def)







section \<open>A previous artifact without a version\<close>

lemma equal_mappings_same_keys:
  assumes "json_objects_equal (JObj d) (JObj e)"
    and "distinct (map fst d)" and "distinct (map fst e)"
  shows "set (map fst d) = set (map fst e)"
proof -
  from assms(1) have len: "length d = length e"
    and all: "\<forall>kv \<in> set d.
      dict_get (map (\<lambda>kv. (fst kv, normalize_json (snd kv))) (sort_key fst e)) (fst kv) \<noteq> None"
    by (auto simp: json_objects_equal_def list_all_iff split: option.splits)
  from all assms(3) have "\<forall>kv \<in> set d. dict_get e (fst kv) \<noteq> None"
    by (simp add: dict_get_normalized)
  with same_keys_iff_same_length [OF assms(2,3)] len show ?thesis
    by simp
qed

lemma unversioned_never_equal:
  assumes "dict_get ed ''vers'' = None"
    and "distinct (map fst ed)" and "distinct (map fst rc)"
  shows "\<not> json_objects_equal (JObj ed) (comparison_copy rc ed current_timestamp)"
proof
  let ?t = "dict_set (dict_set rc ''vers'' (previous_version ed)) ''last_update''
       (case dict_get ed ''last_update'' of Some l \<Rightarrow> l | None \<Rightarrow> JStr current_timestamp)"
  assume "json_objects_equal (JObj ed) (comparison_copy rc ed current_timestamp)"
  then have eq: "json_objects_equal (JObj ed) (JObj ?t)"
    by (simp only: comparison_copy_def)
  have "distinct (map fst ?t)"
    using assms(3) by (intro distinct_dict_set)
  with eq assms(2) have "set (map fst ed) = set (map fst ?t)"
    by (rule equal_mappings_same_keys)
  moreover have "''vers'' \<in> set (map fst ?t)"
    by (simp add: keys_dict_set)
  moreover from assms(1) have "''vers'' \<notin> set (map fst ed)"
    by (simp add: dict_get_def map_of_eq_None_iff)
  ultimately show False by simp
qed

text \<open>
  C10 (as the code has it). Let the device resolve to a Mapping and the previous
  artifact be a Mapping without \<^verbatim>\<open>vers\<close>. The reconciler takes its version to be 1.
  The comparison copy always has \<^verbatim>\<open>vers\<close>, so it is never semantically equal to the
  artifact and the run never ends unchanged: it writes version 2 in silent mode or after
  a yes, and whenever it writes, it writes version 2.
\<close>

theorem unversioned_artifact:
  assumes "resolve_device_config E depth manufacturer_id device_filename = Inr (JObj rc)"
    and "json_loads E old = Some (JObj ed)"
    and "dict_get ed ''vers'' = None"
    and "distinct (map fst ed)" and "distinct (map fst rc)"
  shows "previous_version ed = JNum 1 \<and>
    \<not> json_objects_equal (JObj ed) (comparison_copy rc ed current_timestamp) \<and>
    snd (process_device E depth manufacturer_id device_filename silent_mode
          current_timestamp response (Some old)) \<noteq> Unchanged \<and>
    (\<forall>doc txt. snd (process_device E depth manufacturer_id device_filename silent_mode
          current_timestamp response (Some old)) = Written doc txt \<longrightarrow>
       (\<exists>d. doc = JObj d \<and> dict_get d ''vers'' = Some (JNum 2))) \<and>
    (silent_mode \<or> confirmed response \<longrightarrow>
       (\<exists>d txt. snd (process_device E depth manufacturer_id device_filename silent_mode
          current_timestamp response (Some old)) = Written (JObj d) txt \<and>
          dict_get d ''vers'' = Some (JNum 2)))"
proof -
  from assms(3) have pv: "previous_version ed = JNum 1"
    by (simp add: previous_version_def)
  then have add: "py_add_one (previous_version ed) = Inr (JNum 2)"
    by (simp add: py_add_one_def)
  from assms(3-5) have ne:
    "\<not> json_objects_equal (JObj ed) (comparison_copy rc ed current_timestamp)"
    by (rule unversioned_never_equal)
  have run: "snd (process_device E depth manufacturer_id device_filename silent_mode
          current_timestamp response (Some old)) =
      (if silent_mode \<or> confirmed response then
         Written (JObj (dict_set (dict_set rc ''vers'' (JNum 2)) ''last_update''
             (JStr current_timestamp)))
           (json_dumps E (JObj (dict_set (dict_set rc ''vers'' (JNum 2)) ''last_update''
              (JStr current_timestamp))) @ [newline])
       else Cancelled)"
    unfolding process_device_existing [OF assms(1,2)] using ne add by simp
  have a: "snd (process_device E depth manufacturer_id device_filename silent_mode
          current_timestamp response (Some old)) \<noteq> Unchanged"
    unfolding run by simp
  have b: "\<forall>doc txt. snd (process_device E depth manufacturer_id device_filename silent_mode
          current_timestamp response (Some old)) = Written doc txt \<longrightarrow>
       (\<exists>d. doc = JObj d \<and> dict_get d ''vers'' = Some (JNum 2))"
    unfolding run using written_version by (auto split: if_splits)
  have c: "silent_mode \<or> confirmed response \<longrightarrow>
       (\<exists>d txt. snd (process_device E depth manufacturer_id device_filename silent_mode
          current_timestamp response (Some old)) = Written (JObj d) txt \<and>
          dict_get d ''vers'' = Some (JNum 2))"
    unfolding run using written_version by simp
  from pv ne a b c show ?thesis by (intro conjI)
qed

theorem unversioned_artifact_witness:
  "previous_version (resolved_dev @ [(''last_update'', JStr ''t0'')]) = JNum 1 \<and>
   snd (process_device demo_env (Suc (Suc (Suc (Suc (Suc 0))))) ''m'' ''dev.json'' True
       ''t1'' [] (Some ''same, no version'')) \<noteq> Unchanged \<and>
   (\<exists>d txt. snd (process_device demo_env (Suc (Suc (Suc (Suc (Suc 0))))) ''m'' ''dev.json'' True
       ''t1'' [] (Some ''same, no version'')) = Written (JObj d) txt \<and>
       dict_get d ''vers'' = Some (JNum 2))"
proof -
  let ?ed = "resolved_dev @ [(''last_update'', JStr ''t0'')]"
  have ld: "json_loads demo_env ''same, no version'' = Some (JObj ?ed)"
    using demo_artifacts(3) by (simp only: artifact_unversioned_def)
  have h3: "dict_get ?ed ''vers'' = None"
    by (simp add: resolved_dev_def dict_get_def)
  have h4: "distinct (map fst ?ed)"
    by (simp add: resolved_dev_def)
  have h5: "distinct (map fst resolved_dev)"
    by (simp add: resolved_dev_def)
  note U = unversioned_artifact [OF demo_resolved_dev ld h3 h4 h5, where silent_mode = True
      and current_timestamp = "''t1''" and response = "[]"]
  have s: "True \<or> confirmed []"
    by simp
  note w1 = U [THEN conjunct1]
  note w2 = U [THEN conjunct2, THEN conjunct2, THEN conjunct1]
  note w3 = U [THEN conjunct2, THEN conjunct2, THEN conjunct2, THEN conjunct2, rule_format, OF s]
  from w1 w2 w3 show ?thesis by (intro conjI)
qed

text \<open>
  C10 as the specification states it fails: the previous artifact is the resolved
  document with a timestamp and no version, so the new document, with the previous
  timestamp spliced in, is semantically equal to it; the silent run reports a change and
  writes version 2.
\<close>

theorem unversioned_artifact_counterexample:
  "json_objects_equal artifact_unversioned
     (JObj (dict_set resolved_dev ''last_update'' (JStr ''t0''))) \<and>
   snd (process_device demo_env (Suc (Suc (Suc (Suc (Suc 0))))) ''m'' ''dev.json'' True
       ''t1'' [] (Some ''same, no version'')) =
     Written (JObj (resolved_dev @ [(''vers'', JNum 2), (''last_update'', JStr ''t1'')]))
       [newline]"
proof -
  let ?ed = "resolved_dev @ [(''last_update'', JStr ''t0'')]"
  have ld: "json_loads demo_env ''same, no version'' = Some (JObj ?ed)"
    using demo_artifacts(3) by (simp only: artifact_unversioned_def)
  have eq: "json_objects_equal artifact_unversioned
      (JObj (dict_set resolved_dev ''last_update'' (JStr ''t0'')))"
    by (simp add: json_objects_equal_def artifact_unversioned_def resolved_dev_def dict_get_def)
  have ne: "\<not> json_objects_equal (JObj ?ed) (comparison_copy resolved_dev ?ed ''t1'')"
    by (simp add: json_objects_equal_def comparison_copy_def previous_version_def
        resolved_dev_def dict_get_def)
  have pv: "py_add_one (previous_version ?ed) = Inr (JNum 2)"
    by (simp add: previous_version_def py_add_one_def resolved_dev_def dict_get_def)
  have "snd (process_device demo_env (Suc (Suc (Suc (Suc (Suc 0))))) ''m'' ''dev.json'' True
       ''t1'' [] (Some ''same, no version'')) =
     Written (JObj (resolved_dev @ [(''vers'', JNum 2), (''last_update'', JStr ''t1'')]))
       [newline]"
    unfolding process_device_existing [OF demo_resolved_dev ld]
    using ne pv by (simp add: resolved_dev_def demo_env_def)
  with eq show ?thesis by (intro conjI)
qed

end
